theory Spec2Isabelle
  imports Complex_Main "HOL-Library.Word" "HOL-Library.Sublist" "HOL-Library.Log_Nat"
begin

unbundle bit_operations_syntax

section \<open>Machine types and C strings\<close>

text \<open>
  The firmware runs on a 32-bit target: \<^verbatim>\<open>unsigned int\<close> is a 32-bit word and
  \<^verbatim>\<open>long\<close> a 32-bit signed integer. Bytes of the serial line are \<^typ>\<open>char\<close>
  (8 bits); \<open>of_char\<close> reads one as the unsigned value 0..255, which is what the
  cast to \<^verbatim>\<open>unsigned char *\<close> in the source does.
\<close>

type_synonym u32 = "32 word"
type_synonym u16 = "16 word"

definition NUL :: char where
  "NUL = CHR 0x00"

definition CR :: char where
  "CR = CHR 0x0D"

definition LF :: char where
  "LF = CHR 0x0A"

text \<open>
  A line buffer is the list of the \<open>len\<close> bytes handed to the decoder. The caller
  (\<^verbatim>\<open>readP1Serial\<close>) stores the newline at index \<open>len - 1\<close> and a NUL byte at index
  \<open>len\<close>, so every C string function below sees a terminator right after the last
  list element and never reads past it. A \<^verbatim>\<open>char\<close> array used as a string is read up to
  its first NUL.
\<close>

definition c_str :: "char list \<Rightarrow> char list" where
  "c_str s = takeWhile (\<lambda>c. c \<noteq> NUL) s"

definition strlen :: "char list \<Rightarrow> nat" where
  "strlen s = length (c_str s)"

definition char_at :: "char list \<Rightarrow> nat \<Rightarrow> char" where
  "char_at s i = (if i < length s then s ! i else NUL)"

text \<open>\<^verbatim>\<open>strncmp(s1, s2, n) == 0\<close>: compare at most \<open>n\<close> bytes, stopping at a NUL.\<close>

function strncmp_from :: "nat \<Rightarrow> char list \<Rightarrow> char list \<Rightarrow> nat \<Rightarrow> bool" where
  "strncmp_from i s1 s2 n =
     (if i < n then
        (if char_at s1 i \<noteq> char_at s2 i then False
         else if char_at s1 i = NUL then True
         else strncmp_from (Suc i) s1 s2 n)
      else True)"
  by pat_completeness auto
termination
  by (relation "measure (\<lambda>(i, s1, s2, n). n - i)") auto

declare strncmp_from.simps [simp del]

definition strncmp :: "char list \<Rightarrow> char list \<Rightarrow> nat \<Rightarrow> bool" where
  "strncmp s1 s2 n = strncmp_from 0 s1 s2 n"

text \<open>
  \<^verbatim>\<open>strncpy(dst, src, n)\<close> writes exactly \<open>n\<close> bytes: the bytes of \<open>src\<close> up to its
  terminator, then NUL padding. The rest of \<open>dst\<close> keeps its content. The result is
  the content of \<open>dst\<close> afterwards; it is meaningful for \<open>n \<le> length dst\<close> only.
\<close>

definition strncpy :: "char list \<Rightarrow> char list \<Rightarrow> nat \<Rightarrow> char list" where
  "strncpy dst src n =
     (let copied = c_str (take n src)
      in copied @ replicate (n - length copied) NUL @ drop n dst)"

section \<open>Checksum engine\<close>

text \<open>
  \<^verbatim>\<open>unsigned int crc16(unsigned int crc, unsigned char *buf, int len)\<close>. The pair
  \<open>(buf, len)\<close> is the list of the \<open>len\<close> bytes at \<open>buf\<close>. The inner loop counts \<open>i\<close>
  from 8 down to 0, the outer loop walks \<open>pos\<close> from 0 to \<open>len\<close>.
\<close>

fun crc16_bits :: "nat \<Rightarrow> u32 \<Rightarrow> u32" where
  "crc16_bits 0 crc = crc"
| "crc16_bits (Suc i) crc =
     crc16_bits i
       (if crc AND 0x0001 \<noteq> 0 then drop_bit 1 crc XOR 0xA001 else drop_bit 1 crc)"

function crc16_from :: "nat \<Rightarrow> u32 \<Rightarrow> char list \<Rightarrow> u32" where
  "crc16_from pos crc buf =
     (if pos < length buf
      then crc16_from (Suc pos) (crc16_bits 8 (crc XOR of_char (buf ! pos))) buf
      else crc)"
  by pat_completeness auto
termination
  by (relation "measure (\<lambda>(pos, crc, buf). length buf - pos)") auto

declare crc16_from.simps [simp del]

definition crc16 :: "u32 \<Rightarrow> char list \<Rightarrow> u32" where
  "crc16 crc buf = crc16_from 0 crc buf"

text \<open>
  The checksum as the specification words it, on a 16-bit accumulator: one round
  shifts right and folds the polynomial in when the low bit was set; a byte is
  XORed into the low byte and followed by eight rounds.
\<close>

definition crc_round :: "u16 \<Rightarrow> u16" where
  "crc_round acc = (if bit acc 0 then drop_bit 1 acc XOR 0xA001 else drop_bit 1 acc)"

definition crc_byte :: "u16 \<Rightarrow> char \<Rightarrow> u16" where
  "crc_byte acc b = (crc_round ^^ 8) (acc XOR of_char b)"

definition crc16_spec :: "u16 \<Rightarrow> char list \<Rightarrow> u16" where
  "crc16_spec seed bytes = foldl crc_byte seed bytes"

section \<open>Field registry\<close>

text \<open>
  Modelled from the spec: the struct \<^verbatim>\<open>TelegramDecodedObject\<close>, the array
  \<^verbatim>\<open>telegramObjects\<close> and its size \<^verbatim>\<open>NUMBER_OF_READOUTS\<close> are declared in
  \<^verbatim>\<open>settings.h\<close>, which is not among the sources. The fields are the ones the source
  reads and writes. The array is a list whose length is \<^verbatim>\<open>NUMBER_OF_READOUTS\<close>; its
  content before \<^verbatim>\<open>setupDataReadout\<close> runs is a parameter of the model. \<open>code\<close> holds
  the string stored in the \<^verbatim>\<open>char\<close> array.
\<close>

record TelegramDecodedObject =
  name :: string
  value' :: int
  code :: "char list"
  startChar :: char
  endChar :: char
  sendData :: bool

type_synonym readouts = "TelegramDecodedObject list"

definition set_name :: "nat \<Rightarrow> string \<Rightarrow> readouts \<Rightarrow> readouts" where
  "set_name i s t = t[i := (t ! i)\<lparr>name := s\<rparr>]"

definition strcpy_code :: "nat \<Rightarrow> char list \<Rightarrow> readouts \<Rightarrow> readouts" where
  "strcpy_code i s t = t[i := (t ! i)\<lparr>code := s\<rparr>]"

definition set_endChar :: "nat \<Rightarrow> char \<Rightarrow> readouts \<Rightarrow> readouts" where
  "set_endChar i c t = t[i := (t ! i)\<lparr>endChar := c\<rparr>]"

text \<open>
  \<^verbatim>\<open>setupDataReadout\<close>, statement by statement in source order. The source writes
  slots 0 to 13 and 18; a write needs the slot to exist (\<open>18 < length t\<close>), which
  the theorems about the registry assume.
\<close>

definition setupDataReadout :: "readouts \<Rightarrow> readouts" where
  "setupDataReadout t = fold id
     [set_name 0 ''consumption_tarif_1'', strcpy_code 0 ''1-0:1.8.1'', set_endChar 0 CHR ''*'',
      set_name 1 ''consumption_tarif_2'', strcpy_code 1 ''1-0:1.8.2'', set_endChar 1 CHR ''*'',
      set_name 0 ''received_tarif_1'', strcpy_code 0 ''1-0:2.8.1'', set_endChar 0 CHR ''*'',
      set_name 1 ''received_tarif_2'', strcpy_code 1 ''1-0:2.8.2'', set_endChar 1 CHR ''*'',
      set_name 2 ''actual_consumption'', strcpy_code 2 ''1-0:1.7.0'', set_endChar 2 CHR ''*'',
      set_name 3 ''actual_received'', strcpy_code 3 ''1-0:2.7.0'', set_endChar 3 CHR ''*'',
      set_name 4 ''instant_power_usage_l1'', strcpy_code 4 ''1-0:21.7.0'', set_endChar 4 CHR ''*'',
      set_name 5 ''instant_power_usage_l2'', strcpy_code 5 ''1-0:41.7.0'', set_endChar 5 CHR ''*'',
      set_name 6 ''instant_power_usage_l3'', strcpy_code 6 ''1-0:61.7.0'', set_endChar 6 CHR ''*'',
      set_name 4 ''instant_power_return_l1'', strcpy_code 4 ''1-0:22.7.0'', set_endChar 4 CHR ''*'',
      set_name 5 ''instant_power_return_l2'', strcpy_code 5 ''1-0:42.7.0'', set_endChar 5 CHR ''*'',
      set_name 6 ''instant_power_return_l3'', strcpy_code 6 ''1-0:62.7.0'', set_endChar 6 CHR ''*'',
      set_name 7 ''instant_power_current_l1'', strcpy_code 7 ''1-0:31.7.0'', set_endChar 7 CHR ''*'',
      set_name 8 ''instant_power_current_l2'', strcpy_code 8 ''1-0:51.7.0'', set_endChar 8 CHR ''*'',
      set_name 9 ''instant_power_current_l3'', strcpy_code 9 ''1-0:71.7.0'', set_endChar 9 CHR ''*'',
      set_name 10 ''instant_voltage_l1'', strcpy_code 10 ''1-0:32.7.0'', set_endChar 10 CHR ''*'',
      set_name 11 ''instant_voltage_l2'', strcpy_code 11 ''1-0:52.7.0'', set_endChar 11 CHR ''*'',
      set_name 12 ''instant_voltage_l3'', strcpy_code 12 ''1-0:72.7.0'', set_endChar 12 CHR ''*'',
      set_name 13 ''actual_tarif_group'', strcpy_code 13 ''0-0:96.14.0'',
      set_name 18 ''gas_meter_m3'', strcpy_code 18 ''0-1:24.2.3'', set_endChar 12 CHR ''*'']
     t"

text \<open>
  Modelled from the spec: the member defaults of the struct in \<^verbatim>\<open>settings.h\<close>. The
  delimiters default to the parentheses (also stated in the comment above
  \<^verbatim>\<open>setupDataReadout\<close>), a Reading starts at value 0 and not dirty, and a \<^verbatim>\<open>char\<close>
  array of a global starts zeroed. Used to run the model on concrete tables only.
\<close>

definition default_readout :: TelegramDecodedObject where
  "default_readout =
     \<lparr>name = [], value' = 0, code = [], startChar = CHR ''('', endChar = CHR '')'',
      sendData = False\<rparr>"

section \<open>Value extraction\<close>

text \<open>\<^verbatim>\<open>isNumber(res, len)\<close>: digits, the decimal point and NUL bytes pass.\<close>

function isNumber_from :: "int \<Rightarrow> char list \<Rightarrow> int \<Rightarrow> bool" where
  "isNumber_from i res len =
     (if i < len then
        (if ((of_char (res ! nat i) :: nat) < 48 \<or> (of_char (res ! nat i) :: nat) > 57)
            \<and> (res ! nat i \<noteq> CHR ''.'' \<and> res ! nat i \<noteq> NUL)
         then False
         else isNumber_from (i + 1) res len)
      else True)"
  by pat_completeness auto
termination
  by (relation "measure (\<lambda>(i, res, len). nat (len - i))") auto

declare isNumber_from.simps [simp del]

definition isNumber :: "char list \<Rightarrow> int \<Rightarrow> bool" where
  "isNumber res len = isNumber_from 0 res len"

text \<open>
  \<^verbatim>\<open>findCharInArrayRev(array, c, len)\<close>: scan indices \<open>len - 1\<close> down to 0, return
  the first hit or \<open>-1\<close>. Every caller passes \<open>len \<le> length array\<close>.
\<close>

function findCharInArrayRev_from :: "int \<Rightarrow> char list \<Rightarrow> char \<Rightarrow> int" where
  "findCharInArrayRev_from i array c =
     (if i \<ge> 0 then
        (if array ! nat i = c then i else findCharInArrayRev_from (i - 1) array c)
      else - 1)"
  by pat_completeness auto
termination
  by (relation "measure (\<lambda>(i, array, c). nat (i + 1))") auto

declare findCharInArrayRev_from.simps [simp del]

definition findCharInArrayRev :: "char list \<Rightarrow> char \<Rightarrow> int \<Rightarrow> int" where
  "findCharInArrayRev array c len = findCharInArrayRev_from (len - 1) array c"

text \<open>
  The numeric conversion \<^verbatim>\<open>(long)(k * atof(res))\<close> is done by the C library and
  the floating-point unit, not by code of the firmware. \<open>getValue\<close> takes it as
  the argument \<open>cvt\<close>: \<open>cvt k s\<close> is the \<^verbatim>\<open>long\<close> obtained from the string \<open>s\<close>
  with factor \<open>k\<close> (1000, or 1 for no scaling). The conversion of the target,
  \<open>binary64_conv\<close>, is defined below.
\<close>

type_synonym conv = "int \<Rightarrow> char list \<Rightarrow> int"

text \<open>
  What the source leaves undefined is a value of \<open>error\<close>: \<open>BufferOverrun\<close> is a
  \<^verbatim>\<open>strncpy\<close> into the 16-byte \<open>res\<close> with a count that is negative (converted to
  a huge \<^verbatim>\<open>size_t\<close>) or above 16; \<open>Unterminated\<close> is \<^verbatim>\<open>atof\<close> on a \<open>res\<close> that holds
  16 bytes and no NUL.
\<close>

datatype error = BufferOverrun | Unterminated

definition atof_scaled :: "conv \<Rightarrow> int \<Rightarrow> char list \<Rightarrow> error + int" where
  "atof_scaled cvt k res =
     (if NUL \<in> set res then Inr (cvt k (c_str res)) else Inl Unterminated)"

definition getValue :: "conv \<Rightarrow> char list \<Rightarrow> int \<Rightarrow> char \<Rightarrow> char \<Rightarrow> error + int" where
  "getValue cvt buffer maxlen startchar endchar =
     (let s = findCharInArrayRev buffer startchar (maxlen - 2);
          l = findCharInArrayRev buffer endchar (maxlen - 2) - s - 1
      in if l < 0 \<or> 16 < l then Inl BufferOverrun
         else
           (let res = strncpy (replicate 16 NUL) (drop (nat (s + 1)) buffer) (nat l)
            in if endchar = CHR ''*'' then
                 (if isNumber res l then atof_scaled cvt 1000 res else Inr 0)
               else if endchar = CHR '')'' then
                 (if isNumber res l then atof_scaled cvt 1 res else Inr 0)
               else Inr 0))"

section \<open>Telegram decoder\<close>

text \<open>
  \<^verbatim>\<open>strtol(s, NULL, 16)\<close> on a string of at most four characters: leading white
  space, an optional sign, an optional \<^verbatim>\<open>0x\<close>, then the hexadecimal digits up to the
  first other character. Four digits cannot overflow a \<^verbatim>\<open>long\<close>.
\<close>

definition isspace :: "char \<Rightarrow> bool" where
  "isspace c = ((of_char c :: nat) = 32 \<or> (9 \<le> (of_char c :: nat) \<and> (of_char c :: nat) \<le> 13))"

definition hex_digit :: "char \<Rightarrow> int option" where
  "hex_digit c =
     (let n = (of_char c :: nat) in
      if 48 \<le> n \<and> n \<le> 57 then Some (int n - 48)
      else if 65 \<le> n \<and> n \<le> 70 then Some (int n - 55)
      else if 97 \<le> n \<and> n \<le> 102 then Some (int n - 87)
      else None)"

fun hex_digits :: "int \<Rightarrow> char list \<Rightarrow> int" where
  "hex_digits acc [] = acc"
| "hex_digits acc (c # cs) =
     (case hex_digit c of None \<Rightarrow> acc | Some d \<Rightarrow> hex_digits (acc * 16 + d) cs)"

fun strip_0x :: "char list \<Rightarrow> char list" where
  "strip_0x (z # x # cs) =
     (if z = CHR ''0'' \<and> (x = CHR ''x'' \<or> x = CHR ''X'') then cs else z # x # cs)"
| "strip_0x cs = cs"

fun strtol16_signed :: "char list \<Rightarrow> int" where
  "strtol16_signed (c # cs) =
     (if c = CHR ''-'' then - hex_digits 0 (strip_0x cs)
      else if c = CHR ''+'' then hex_digits 0 (strip_0x cs)
      else hex_digits 0 (strip_0x (c # cs)))"
| "strtol16_signed [] = 0"

definition strtol16 :: "char list \<Rightarrow> int" where
  "strtol16 s = strtol16_signed (dropWhile isspace s)"

text \<open>
  Lines 465 to 505 of \<^verbatim>\<open>decodeTelegram\<close>: the checksum bookkeeping. \<open>currentCRC\<close>
  is a local of the function, initialised to 0 on every call. The result is the
  pair of the locals \<open>validCRCFound\<close> and \<open>currentCRC\<close> when the branch is left.
  The comparison of the \<^verbatim>\<open>long\<close> with the \<^verbatim>\<open>unsigned int\<close> is done on 32-bit words.
\<close>

definition decodeTelegram_crc :: "char list \<Rightarrow> bool \<times> u32" where
  "decodeTelegram_crc telegram =
     (let len = int (length telegram);
          startChar = findCharInArrayRev telegram CHR ''/'' len;
          endChar = findCharInArrayRev telegram CHR ''!'' len;
          currentCRC = (0 :: u32)
      in if startChar \<ge> 0 then
           (False, crc16 0x0000 (drop (nat startChar) telegram))
         else if endChar \<ge> 0 then
           (let currentCRC = crc16 currentCRC (take 1 (drop (nat endChar) telegram));
                messageCRC = strncpy (replicate 5 NUL) (drop (nat (endChar + 1)) telegram) 4
            in (word_of_int (strtol16 (c_str messageCRC)) = currentCRC, 0))
         else
           (False, crc16 currentCRC telegram))"

text \<open>
  Lines 509 to 525: the scan of the registry, from slot \<open>i\<close> on. The first slot whose
  code compares equal on \<open>strlen(code)\<close> bytes gets the extracted value and the scan
  stops.
\<close>

function decodeTelegram_readouts ::
  "conv \<Rightarrow> nat \<Rightarrow> char list \<Rightarrow> readouts \<Rightarrow> error + readouts" where
  "decodeTelegram_readouts cvt i telegram objs =
     (if i < length objs then
        (if strncmp telegram (code (objs ! i)) (strlen (code (objs ! i))) then
           (case getValue cvt telegram (int (length telegram))
                   (startChar (objs ! i)) (endChar (objs ! i)) of
              Inl e \<Rightarrow> Inl e
            | Inr newValue \<Rightarrow>
                Inr (if newValue \<noteq> value' (objs ! i)
                     then objs[i := (objs ! i)\<lparr>value' := newValue, sendData := True\<rparr>]
                     else objs))
         else decodeTelegram_readouts cvt (Suc i) telegram objs)
      else Inr objs)"
  by pat_completeness auto
termination
  by (relation "measure (\<lambda>(cvt, i, telegram, objs). length objs - i)") auto

declare decodeTelegram_readouts.simps [simp del]

text \<open>
  \<^verbatim>\<open>decodeTelegram(telegram, len)\<close> returns \<open>validCRCFound\<close> and leaves the registry
  updated; nothing else survives the call.
\<close>

definition decodeTelegram :: "conv \<Rightarrow> char list \<Rightarrow> readouts \<Rightarrow> error + bool \<times> readouts" where
  "decodeTelegram cvt telegram objs =
     (let (validCRCFound, currentCRC) = decodeTelegram_crc telegram
      in case decodeTelegram_readouts cvt 0 telegram objs of
           Inl e \<Rightarrow> Inl e
         | Inr objs' \<Rightarrow> Inr (validCRCFound, objs'))"

section \<open>The conversion of a decimal string in binary floating point\<close>

text \<open>
  \<^verbatim>\<open>atof\<close>, the multiplication by 1000 and the cast to \<^verbatim>\<open>long\<close> work on the type
  \<^verbatim>\<open>double\<close>, the binary64 format of IEEE 754: a number is kept with a mantissa of
  53 bits, and every operation returns the representable number nearest to the
  exact result, the one with an even mantissa on a tie. Numbers are rationals
  here, and \<open>round_binary64\<close> is that rounding. The exponent range of the format
  is not modelled: the strings that pass \<^verbatim>\<open>isNumber\<close> have at most 16 digits and
  points, so that their values and products are 0 or lie between 10 to the power
  -15 and 10 to the power 19, far from overflow and from the subnormal numbers.
\<close>

definition round_half_even :: "rat \<Rightarrow> int" where
  "round_half_even y =
     (let f = \<lfloor>y\<rfloor>; r = y - of_int f
      in if r < 1 / 2 then f
         else if 1 / 2 < r then f + 1
         else if even f then f else f + 1)"

text \<open>
  The binary exponent of a positive number, \<open>2 powi e \<le> x < 2 powi (e + 1)\<close>, from
  the number of bits of its integer part, or of the integer part of its inverse.
\<close>

definition floor_log2 :: "rat \<Rightarrow> int" where
  "floor_log2 x =
     (if 1 \<le> x then bitlen \<lfloor>x\<rfloor> - 1 else - bitlen (\<lceil>1 / x\<rceil> - 1))"

definition round_binary64 :: "rat \<Rightarrow> rat" where
  "round_binary64 x =
     (if x = 0 then 0
      else (let e = floor_log2 \<bar>x\<bar> - 52
            in sgn x * of_int (round_half_even (\<bar>x\<bar> / 2 powi e)) * 2 powi e))"

definition isdigit :: "char \<Rightarrow> bool" where
  "isdigit c = (48 \<le> (of_char c :: nat) \<and> (of_char c :: nat) \<le> 57)"

fun decimal_digits :: "int \<Rightarrow> char list \<Rightarrow> int" where
  "decimal_digits acc [] = acc"
| "decimal_digits acc (c # cs) = decimal_digits (acc * 10 + (int (of_char c) - 48)) cs"

text \<open>
  \<^verbatim>\<open>atof\<close> on a string of digits and points (what \<^verbatim>\<open>isNumber\<close> lets through): the
  longest prefix of the form digits, optional point, digits is read as a decimal
  number, 0 if it has no digit, and rounded once to binary64. The rest of the
  string is ignored.
\<close>

definition decimal_prefix :: "char list \<Rightarrow> rat" where
  "decimal_prefix s =
     (let whole = takeWhile isdigit s;
          rest = dropWhile isdigit s;
          frac = (case rest of [] \<Rightarrow> [] | c # r \<Rightarrow> if c = CHR ''.'' then takeWhile isdigit r else [])
      in of_int (decimal_digits 0 (whole @ frac)) / 10 ^ length frac)"

definition atof :: "char list \<Rightarrow> rat" where
  "atof s = round_binary64 (decimal_prefix s)"

text \<open>
  The cast of a \<^verbatim>\<open>double\<close> to \<^verbatim>\<open>long\<close> drops the fractional part. (A value outside
  the range of \<^verbatim>\<open>long\<close> is undefined in C; the theorem on the conversion assumes
  the range.)
\<close>

definition double_to_long :: "rat \<Rightarrow> int" where
  "double_to_long x = (if 0 \<le> x then \<lfloor>x\<rfloor> else \<lceil>x\<rceil>)"

text \<open>
  The two conversions of \<^verbatim>\<open>getValue\<close>: \<^verbatim>\<open>return atof(res)\<close> for the factor 1 and
  \<^verbatim>\<open>return (1000 * atof(res))\<close>, a product of two \<^verbatim>\<open>double\<close>s rounded again, both
  cast to the return type \<^verbatim>\<open>long\<close>.
\<close>

definition binary64_conv :: conv where
  "binary64_conv k s =
     (if k = 1 then double_to_long (atof s)
      else double_to_long (round_binary64 (of_int k * atof s)))"

section \<open>Reference notions used to state the properties\<close>

text \<open>
  The first entry of a list of codes that is a byte-for-byte prefix of the line, as
  the specification words the registry lookup.
\<close>

primrec first_prefix_match :: "char list \<Rightarrow> char list list \<Rightarrow> nat option" where
  "first_prefix_match line [] = None"
| "first_prefix_match line (c # cs) =
     (if prefix c line then Some 0 else map_option Suc (first_prefix_match line cs))"



text \<open>
  The registry of a device right after start-up, with 19 slots: the least size of
  the table for which the write to slot 18 is inside the array.
\<close>

definition fresh_readouts :: readouts where
  "fresh_readouts = setupDataReadout (replicate 19 default_readout)"

text \<open>
  The same registry once the field \<open>actual_consumption\<close> (slot 2) has been read as
  378 and published.
\<close>

definition drained_readouts :: readouts where
  "drained_readouts = fresh_readouts[2 := (fresh_readouts ! 2)\<lparr>value' := 378\<rparr>]"

section \<open>The checksum engine computes the reflected CRC-16\<close>

lemma of_char_less_256: "(of_char b :: nat) < 256"
proof (cases b)
  case (Char b0 b1 b2 b3 b4 b5 b6 b7)
  then show ?thesis by (simp add: of_bool_def)
qed

lemma of_char_word: "(of_char b :: 'a::len word) = word_of_nat (of_char b)"
  by (cases b) simp

lemma of_char_ucast: "(of_char b :: u32) = ucast (of_char b :: u16)"
proof -
  have "(of_char b :: nat) < 2 ^ 16"
    by (rule less_trans [OF of_char_less_256]) simp
  then have "take_bit 16 (of_char b :: nat) = of_char b"
    by (simp only: take_bit_nat_eq_self)
  then show ?thesis
    by (simp add: of_char_word [where 'a=32] of_char_word [where 'a=16] unsigned_of_nat)
qed

lemma ucast_low_bit: "(ucast (a::u16) :: u32) AND 1 \<noteq> 0 \<longleftrightarrow> bit a 0"
proof -
  have "(ucast a :: u32) AND 1 = of_bool (bit (ucast a :: u32) 0)"
    by (simp add: and_one_eq bit_0 mod_2_eq_odd)
  also have "bit (ucast a :: u32) 0 = bit a 0"
    by (simp add: bit_ucast_iff)
  finally show ?thesis by simp
qed

lemma ucast_drop_bit: "drop_bit n (ucast (a::u16) :: u32) = ucast (drop_bit n a)"
  by (rule bit_word_eqI) (auto simp add: bit_ucast_iff bit_drop_bit_eq dest: bit_imp_le_length)

lemma ucast_xor: "(ucast (a::u16) :: u32) XOR ucast b = ucast (a XOR (b::u16))"
  by (simp add: unsigned_xor_eq)

lemma round_ucast:
  "(if (ucast (a::u16) :: u32) AND 0x0001 \<noteq> 0
    then drop_bit 1 (ucast a) XOR 0xA001 else drop_bit 1 (ucast a))
     = (ucast (crc_round a) :: u32)"
proof (cases "bit a 0")
  case True
  then show ?thesis
    by (simp add: ucast_low_bit crc_round_def ucast_drop_bit unsigned_xor_eq)
next
  case False
  then show ?thesis
    by (simp add: ucast_low_bit crc_round_def ucast_drop_bit)
qed

lemma crc16_bits_ucast: "crc16_bits n (ucast a) = ucast ((crc_round ^^ n) a)"
proof (induction n arbitrary: a)
  case 0
  show ?case by simp
next
  case (Suc n)
  have "crc16_bits (Suc n) (ucast a) = crc16_bits n (ucast (crc_round a))"
    by (simp only: crc16_bits.simps round_ucast)
  also have "\<dots> = ucast ((crc_round ^^ n) (crc_round a))"
    by (rule Suc.IH)
  finally show ?case by (simp add: funpow_swap1)
qed

lemma crc16_step_ucast:
  "crc16_bits 8 (ucast a XOR of_char c) = ucast (crc_byte a c)"
  by (simp only: of_char_ucast ucast_xor crc16_bits_ucast crc_byte_def)

lemma crc16_from_drop:
  "crc16_from pos (ucast a) buf = ucast (foldl crc_byte a (drop pos buf))"
proof (induction "length buf - pos" arbitrary: pos a)
  case 0
  then show ?case by (subst crc16_from.simps) simp
next
  case (Suc n)
  then have lt: "pos < length buf" and n: "n = length buf - Suc pos"
    by simp_all
  have "crc16_from pos (ucast a) buf
      = crc16_from (Suc pos) (ucast (crc_byte a (buf ! pos))) buf"
    using lt by (subst crc16_from.simps) (simp only: crc16_step_ucast if_True)
  also have "\<dots> = ucast (foldl crc_byte (crc_byte a (buf ! pos)) (drop (Suc pos) buf))"
    using n by (rule Suc.hyps(1))
  also have "foldl crc_byte (crc_byte a (buf ! pos)) (drop (Suc pos) buf)
      = foldl crc_byte a (drop pos buf)"
    using lt by (simp flip: Cons_nth_drop_Suc)
  finally show ?case .
qed

text \<open>
  Claim C3. \<open>crc16\<close> is a function of its seed and bytes alone, and on a 16-bit seed
  the 32-bit accumulator of the source holds, zero-extended, the reflected CRC-16 with
  polynomial \<open>0xA001\<close>: for each byte, XOR it into the low byte of the accumulator,
  then eight rounds of shifting right and XORing with \<open>0xA001\<close> when the low bit was
  set before the shift.
\<close>

theorem crc16_refines_spec: "crc16 (ucast seed) buf = ucast (crc16_spec seed buf)"
proof -
  have "crc16 (ucast seed) buf = crc16_from 0 (ucast seed) buf"
    by (simp only: crc16_def)
  also have "\<dots> = ucast (foldl crc_byte seed (drop 0 buf))"
    by (rule crc16_from_drop)
  also have "\<dots> = ucast (crc16_spec seed buf)"
    by (simp only: crc16_spec_def drop_0)
  finally show ?thesis .
qed

section \<open>The registry built by setupDataReadout\<close>

lemma length_set_name: "length (set_name i s t) = length t"
  by (simp add: set_name_def)

lemma length_strcpy_code: "length (strcpy_code i s t) = length t"
  by (simp add: strcpy_code_def)

lemma length_set_endChar: "length (set_endChar i c t) = length t"
  by (simp add: set_endChar_def)

lemma code_set_name: "code (set_name i s t ! j) = code (t ! j)"
  by (cases "i < length t"; cases "i = j") (simp_all add: set_name_def list_update_beyond)

lemma code_set_endChar: "code (set_endChar i c t ! j) = code (t ! j)"
  by (cases "i < length t"; cases "i = j") (simp_all add: set_endChar_def list_update_beyond)

lemma code_strcpy_code:
  "code (strcpy_code i s t ! j) = (if i = j \<and> j < length t then s else code (t ! j))"
  by (cases "i < length t"; cases "i = j") (simp_all add: strcpy_code_def list_update_beyond)

lemma name_set_name:
  "name (set_name i s t ! j) = (if i = j \<and> j < length t then s else name (t ! j))"
  by (cases "i < length t"; cases "i = j") (simp_all add: set_name_def list_update_beyond)

lemma name_strcpy_code: "name (strcpy_code i s t ! j) = name (t ! j)"
  by (cases "i < length t"; cases "i = j") (simp_all add: strcpy_code_def list_update_beyond)

lemma name_set_endChar: "name (set_endChar i c t ! j) = name (t ! j)"
  by (cases "i < length t"; cases "i = j") (simp_all add: set_endChar_def list_update_beyond)

lemma endChar_set_name: "endChar (set_name i s t ! j) = endChar (t ! j)"
  by (cases "i < length t"; cases "i = j") (simp_all add: set_name_def list_update_beyond)

lemma endChar_strcpy_code: "endChar (strcpy_code i s t ! j) = endChar (t ! j)"
  by (cases "i < length t"; cases "i = j") (simp_all add: strcpy_code_def list_update_beyond)

lemma endChar_set_endChar:
  "endChar (set_endChar i c t ! j) = (if i = j \<and> j < length t then c else endChar (t ! j))"
  by (cases "i < length t"; cases "i = j") (simp_all add: set_endChar_def list_update_beyond)

lemmas setup_length = length_set_name length_strcpy_code length_set_endChar
lemmas setup_code = code_set_name code_set_endChar code_strcpy_code
lemmas setup_name = name_set_name name_strcpy_code name_set_endChar
lemmas setup_endChar = endChar_set_name endChar_strcpy_code endChar_set_endChar

text \<open>
  Slots 14 to 17 are not written by \<open>setupDataReadout\<close>: they keep the code they
  had before, so that two of them with the same code make the codes of the table
  not pairwise distinct; so does every table of more than 18 equal entries.
\<close>

lemma setup_keeps_code_14_15:
  "code (setupDataReadout init ! 14) = code (init ! 14)"
  "code (setupDataReadout init ! 15) = code (init ! 15)"
  by (simp_all add: setupDataReadout_def setup_code)

lemma length_setupDataReadout: "length (setupDataReadout init) = length init"
  by (simp add: setupDataReadout_def setup_length)

lemma setup_codes_not_distinct:
  assumes "18 < length init" and "code (init ! 14) = code (init ! 15)"
  shows "\<not> distinct (map code (setupDataReadout init))"
proof
  assume d: "distinct (map code (setupDataReadout init))"
  from assms(1) have n: "14 < length (setupDataReadout init)" "15 < length (setupDataReadout init)"
    by (simp_all add: length_setupDataReadout)
  then have l: "14 < length (map code (setupDataReadout init))"
    "15 < length (map code (setupDataReadout init))"
    by simp_all
  have "map code (setupDataReadout init) ! 14 = map code (setupDataReadout init) ! 15"
    using assms(2) n by (simp add: setup_keeps_code_14_15)
  with d l have "(14::nat) = 15" by (simp only: nth_eq_iff_index_eq)
  then show False by simp
qed

lemma setup_default_codes_not_distinct:
  "18 < n \<Longrightarrow> \<not> distinct (map code (setupDataReadout (replicate n d)))"
  by (rule setup_codes_not_distinct) simp_all

text \<open>
  Claim C10. After \<open>setupDataReadout\<close> the entry at index 18 is named
  \<open>gas_meter_m3\<close> with code \<open>0-1:24.2.3\<close> and still has the end delimiter it had
  before the call: the assignment next to its setup writes the end delimiter of
  entry 12, which is \<open>*\<close> afterwards.
\<close>

theorem gas_field_keeps_default_endChar:
  assumes "18 < length init"
  shows "name (setupDataReadout init ! 18) = ''gas_meter_m3''
       \<and> code (setupDataReadout init ! 18) = ''0-1:24.2.3''
       \<and> endChar (setupDataReadout init ! 18) = endChar (init ! 18)
       \<and> endChar (setupDataReadout init ! 12) = CHR ''*''"
proof -
  have "name (setupDataReadout init ! 18) = ''gas_meter_m3''"
    using assms by (simp add: setupDataReadout_def setup_length setup_name)
  moreover have "code (setupDataReadout init ! 18) = ''0-1:24.2.3''"
    using assms by (simp add: setupDataReadout_def setup_length setup_code)
  moreover have "endChar (setupDataReadout init ! 18) = endChar (init ! 18)"
    using assms by (simp add: setupDataReadout_def setup_length setup_endChar)
  moreover have "endChar (setupDataReadout init ! 12) = CHR ''*''"
    using assms by (simp add: setupDataReadout_def setup_length setup_endChar)
  ultimately show ?thesis by simp
qed

theorem gas_field_keeps_default_endChar_witness:
  "18 < length (replicate 19 default_readout)
   \<and> name (setupDataReadout (replicate 19 default_readout) ! 18) = ''gas_meter_m3''
   \<and> code (setupDataReadout (replicate 19 default_readout) ! 18) = ''0-1:24.2.3''
   \<and> endChar (setupDataReadout (replicate 19 default_readout) ! 18) = CHR '')''
   \<and> endChar (setupDataReadout (replicate 19 default_readout) ! 12) = CHR ''*''"
  using gas_field_keeps_default_endChar [of "replicate 19 default_readout"]
  by (simp add: default_readout_def)

section \<open>Searching a buffer backwards\<close>

lemma findCharInArrayRev_from_result:
  "findCharInArrayRev_from i array c = r
   \<Longrightarrow> r = - 1 \<or> (0 \<le> r \<and> r \<le> i \<and> array ! nat r = c)"
proof (induction i array c rule: findCharInArrayRev_from.induct)
  case (1 i array c)
  show ?case
  proof (cases "0 \<le> i")
    case False
    with "1.prems" show ?thesis by (subst (asm) findCharInArrayRev_from.simps) simp
  next
    case nonneg: True
    show ?thesis
    proof (cases "array ! nat i = c")
      case True
      with nonneg "1.prems" have "r = i"
        by (subst (asm) findCharInArrayRev_from.simps) simp
      with nonneg True show ?thesis by simp
    next
      case False
      with nonneg "1.prems" have "findCharInArrayRev_from (i - 1) array c = r"
        by (subst (asm) findCharInArrayRev_from.simps) simp
      from "1.IH" [OF nonneg False this] show ?thesis by auto
    qed
  qed
qed

lemma findCharInArrayRev_from_cases:
  "findCharInArrayRev_from i array c = - 1
   \<or> (0 \<le> findCharInArrayRev_from i array c
      \<and> findCharInArrayRev_from i array c \<le> i
      \<and> array ! nat (findCharInArrayRev_from i array c) = c)"
  by (rule findCharInArrayRev_from_result) (rule refl)

lemma findCharInArrayRev_from_absent:
  "(\<And>j. j \<le> nat i \<Longrightarrow> array ! j \<noteq> c) \<Longrightarrow> findCharInArrayRev_from i array c = - 1"
proof (induction i array c rule: findCharInArrayRev_from.induct)
  case (1 i array c)
  show ?case
  proof (cases "0 \<le> i")
    case False
    then show ?thesis by (subst findCharInArrayRev_from.simps) simp
  next
    case True
    have ne: "array ! nat i \<noteq> c" by (rule "1.prems") simp
    have "findCharInArrayRev_from (i - 1) array c = - 1"
    proof (rule "1.IH" [OF True ne])
      fix j assume "j \<le> nat (i - 1)"
      then have "j \<le> nat i" by simp
      then show "array ! j \<noteq> c" by (rule "1.prems")
    qed
    with True ne show ?thesis by (subst findCharInArrayRev_from.simps) simp
  qed
qed

lemma findCharInArrayRev_from_cong:
  "(\<And>j. j \<le> nat i \<Longrightarrow> a1 ! j = a2 ! j)
   \<Longrightarrow> findCharInArrayRev_from i a1 c = findCharInArrayRev_from i a2 c"
proof (induction i a1 c rule: findCharInArrayRev_from.induct)
  case (1 i a1 c)
  show ?case
  proof (cases "0 \<le> i")
    case False
    then show ?thesis
      by (subst findCharInArrayRev_from.simps, subst (2) findCharInArrayRev_from.simps) simp
  next
    case True
    have same: "a1 ! nat i = a2 ! nat i" by (rule "1.prems") simp
    show ?thesis
    proof (cases "a1 ! nat i = c")
      case hit: True
      with True same show ?thesis
        by (subst findCharInArrayRev_from.simps, subst (2) findCharInArrayRev_from.simps) simp
    next
      case miss: False
      have "findCharInArrayRev_from (i - 1) a1 c = findCharInArrayRev_from (i - 1) a2 c"
      proof (rule "1.IH" [OF True miss])
        fix j assume "j \<le> nat (i - 1)"
        then have "j \<le> nat i" by simp
        then show "a1 ! j = a2 ! j" by (rule "1.prems")
      qed
      with True same miss show ?thesis
        by (subst findCharInArrayRev_from.simps, subst (2) findCharInArrayRev_from.simps) simp
    qed
  qed
qed

lemma findCharInArrayRev_cases:
  "findCharInArrayRev array c len = - 1
   \<or> (0 \<le> findCharInArrayRev array c len
      \<and> findCharInArrayRev array c len < len
      \<and> array ! nat (findCharInArrayRev array c len) = c)"
  using findCharInArrayRev_from_cases [of "len - 1" array c]
  by (auto simp add: findCharInArrayRev_def)

lemma findCharInArrayRev_ge: "- 1 \<le> findCharInArrayRev array c len"
  using findCharInArrayRev_cases [of array c len] by auto

lemma findCharInArrayRev_lt:
  "findCharInArrayRev array c len = - 1 \<or> findCharInArrayRev array c len < len"
  using findCharInArrayRev_cases [of array c len] by auto

lemma findCharInArrayRev_absent:
  assumes "len \<le> int (length array)" and "c \<notin> set (take (nat len) array)"
  shows "findCharInArrayRev array c len = - 1"
proof (cases "0 < len")
  case False
  then show ?thesis
    unfolding findCharInArrayRev_def by (subst findCharInArrayRev_from.simps) simp
next
  case True
  show ?thesis
    unfolding findCharInArrayRev_def
  proof (rule findCharInArrayRev_from_absent)
    fix j assume "j \<le> nat (len - 1)"
    with True assms(1) have j: "j < nat len" "j < length array" by auto
    then have "take (nat len) array ! j = array ! j" by simp
    moreover from j have "take (nat len) array ! j \<in> set (take (nat len) array)"
      by (intro nth_mem) simp
    ultimately show "array ! j \<noteq> c" using assms(2) by auto
  qed
qed

lemma findCharInArrayRev_take:
  "findCharInArrayRev (take (nat len) array) c len = findCharInArrayRev array c len"
proof (cases "0 < len")
  case False
  then show ?thesis
    unfolding findCharInArrayRev_def
    by (subst findCharInArrayRev_from.simps, subst (2) findCharInArrayRev_from.simps) simp
next
  case True
  show ?thesis
    unfolding findCharInArrayRev_def
  proof (rule findCharInArrayRev_from_cong)
    fix j assume "j \<le> nat (len - 1)"
    with True have "j < nat len" by auto
    then show "take (nat len) array ! j = array ! j" by simp
  qed
qed

section \<open>Code matching is a prefix test\<close>

lemma c_str_nth: "j < strlen s \<Longrightarrow> c_str s ! j = s ! j"
  unfolding strlen_def c_str_def by (rule takeWhile_nth)

lemma c_str_not_NUL: "j < strlen s \<Longrightarrow> s ! j \<noteq> NUL"
proof -
  assume j: "j < strlen s"
  then have "c_str s ! j \<in> set (c_str s)" by (simp add: strlen_def)
  then have "c_str s ! j \<noteq> NUL" unfolding c_str_def by (auto dest: set_takeWhileD)
  with j show ?thesis by (simp add: c_str_nth)
qed

lemma strlen_le: "strlen s \<le> length s"
  unfolding strlen_def c_str_def by (rule length_takeWhile_le)

lemma strncmp_from_iff:
  "i \<le> strlen s2 \<Longrightarrow>
   strncmp_from i s1 s2 (strlen s2)
     \<longleftrightarrow> (\<forall>j. i \<le> j \<and> j < strlen s2 \<longrightarrow> j < length s1 \<and> s1 ! j = s2 ! j)"
proof (induction "strlen s2 - i" arbitrary: i)
  case 0
  then have "i = strlen s2" by simp
  then show ?case by (subst strncmp_from.simps) auto
next
  case (Suc d)
  then have lt: "i < strlen s2" and d: "d = strlen s2 - Suc i" by simp_all
  from lt have in2: "i < length s2" using strlen_le [of s2] by simp
  from lt have nz: "s2 ! i \<noteq> NUL" by (rule c_str_not_NUL)
  have IH: "strncmp_from (Suc i) s1 s2 (strlen s2)
     \<longleftrightarrow> (\<forall>j. Suc i \<le> j \<and> j < strlen s2 \<longrightarrow> j < length s1 \<and> s1 ! j = s2 ! j)"
    using d lt by (intro Suc.hyps(1)) simp_all
  show ?case
  proof (cases "i < length s1 \<and> s1 ! i = s2 ! i")
    case True
    then have "strncmp_from i s1 s2 (strlen s2) = strncmp_from (Suc i) s1 s2 (strlen s2)"
      using lt in2 nz by (subst strncmp_from.simps) (simp add: char_at_def)
    also note IH
    also have "(\<forall>j. Suc i \<le> j \<and> j < strlen s2 \<longrightarrow> j < length s1 \<and> s1 ! j = s2 ! j)
        \<longleftrightarrow> (\<forall>j. i \<le> j \<and> j < strlen s2 \<longrightarrow> j < length s1 \<and> s1 ! j = s2 ! j)"
      using True by (metis Suc_leI le_neq_implies_less Suc_leD)
    finally show ?thesis .
  next
    case False
    then have "char_at s1 i \<noteq> char_at s2 i"
      using in2 nz by (auto simp add: char_at_def)
    then have "\<not> strncmp_from i s1 s2 (strlen s2)"
      using lt by (subst strncmp_from.simps) simp
    moreover have "\<not> (\<forall>j. i \<le> j \<and> j < strlen s2 \<longrightarrow> j < length s1 \<and> s1 ! j = s2 ! j)"
      using False lt by blast
    ultimately show ?thesis by simp
  qed
qed

lemma prefix_iff_nth:
  "prefix p s \<longleftrightarrow> (\<forall>j < length p. j < length s \<and> s ! j = p ! j)"
proof
  assume "prefix p s"
  then obtain r where "s = p @ r" by (auto simp add: prefix_def)
  then show "\<forall>j < length p. j < length s \<and> s ! j = p ! j"
    by (simp add: nth_append)
next
  assume *: "\<forall>j < length p. j < length s \<and> s ! j = p ! j"
  have len: "length p \<le> length s"
  proof (cases p)
    case Nil
    then show ?thesis by simp
  next
    case (Cons a q)
    then have "length p - 1 < length p" by simp
    with * have "length p - 1 < length s" by blast
    then show ?thesis by simp
  qed
  have "take (length p) s = p"
    using * len by (intro nth_equalityI) simp_all
  then show "prefix p s"
    by (metis take_is_prefix)
qed

lemma strncmp_prefix:
  "strncmp telegram cd (strlen cd) \<longleftrightarrow> prefix (c_str cd) telegram"
proof -
  have "strncmp telegram cd (strlen cd)
      \<longleftrightarrow> (\<forall>j. j < strlen cd \<longrightarrow> j < length telegram \<and> telegram ! j = cd ! j)"
    unfolding strncmp_def by (subst strncmp_from_iff) simp_all
  also have "\<dots> \<longleftrightarrow> (\<forall>j < length (c_str cd). j < length telegram \<and> telegram ! j = c_str cd ! j)"
    by (auto simp add: c_str_nth strlen_def [symmetric])
  also have "\<dots> \<longleftrightarrow> prefix (c_str cd) telegram"
    by (simp add: prefix_iff_nth)
  finally show ?thesis .
qed

lemma first_prefix_match_Some:
  "first_prefix_match line cs = Some k
   \<Longrightarrow> k < length cs \<and> prefix (cs ! k) line \<and> (\<forall>j < k. \<not> prefix (cs ! j) line)"
proof (induction cs arbitrary: k)
  case Nil
  then show ?case by simp
next
  case (Cons c cs)
  show ?case
  proof (cases "prefix c line")
    case True
    with Cons.prems show ?thesis by simp
  next
    case False
    with Cons.prems obtain k' where k': "first_prefix_match line cs = Some k'" "k = Suc k'"
      by auto
    from Cons.IH [OF k'(1)] False k'(2) show ?thesis
      by (auto simp add: less_Suc_eq_0_disj)
  qed
qed

lemma first_prefix_match_None:
  "first_prefix_match line cs = None \<longleftrightarrow> (\<forall>c \<in> set cs. \<not> prefix c line)"
  by (induction cs) auto

section \<open>The registry scan stops at the first match\<close>

lemma readouts_from:
  "decodeTelegram_readouts cvt i telegram objs =
     (case first_prefix_match telegram (map (c_str \<circ> code) (drop i objs)) of
        None \<Rightarrow> Inr objs
      | Some k \<Rightarrow>
          (case getValue cvt telegram (int (length telegram))
                  (startChar (objs ! (i + k))) (endChar (objs ! (i + k))) of
             Inl e \<Rightarrow> Inl e
           | Inr newValue \<Rightarrow>
               Inr (if newValue \<noteq> value' (objs ! (i + k))
                    then objs[i + k := (objs ! (i + k))\<lparr>value' := newValue, sendData := True\<rparr>]
                    else objs)))"
proof (induction "length objs - i" arbitrary: i)
  case 0
  then show ?case by (subst decodeTelegram_readouts.simps) simp
next
  case (Suc d)
  then have lt: "i < length objs" and d: "d = length objs - Suc i" by simp_all
  from lt have dr: "drop i objs = objs ! i # drop (Suc i) objs"
    by (simp add: Cons_nth_drop_Suc)
  show ?case
  proof (cases "prefix (c_str (code (objs ! i))) telegram")
    case True
    then show ?thesis
      using lt by (subst decodeTelegram_readouts.simps)
        (simp add: dr strncmp_prefix cong: sum.case_cong if_cong)
  next
    case False
    have "decodeTelegram_readouts cvt i telegram objs
        = decodeTelegram_readouts cvt (Suc i) telegram objs"
      using lt False by (subst decodeTelegram_readouts.simps) (simp add: strncmp_prefix)
    also note Suc.hyps(1) [OF d]
    finally have eq: "decodeTelegram_readouts cvt i telegram objs =
      (case first_prefix_match telegram (map (c_str \<circ> code) (drop (Suc i) objs)) of
        None \<Rightarrow> Inr objs
      | Some k \<Rightarrow>
          (case getValue cvt telegram (int (length telegram))
                  (startChar (objs ! (Suc i + k))) (endChar (objs ! (Suc i + k))) of
             Inl e \<Rightarrow> Inl e
           | Inr newValue \<Rightarrow>
               Inr (if newValue \<noteq> value' (objs ! (Suc i + k))
                    then objs[Suc i + k := (objs ! (Suc i + k))\<lparr>value' := newValue, sendData := True\<rparr>]
                    else objs)))" .
    show ?thesis
    proof (cases "first_prefix_match telegram (map (c_str \<circ> code) (drop (Suc i) objs))")
      case None
      with eq False show ?thesis by (simp add: dr)
    next
      case (Some k)
      have "i + Suc k = Suc i + k" by simp
      with eq False Some show ?thesis by (simp only: dr list.map comp_apply first_prefix_match.simps if_False option.map option.case)
    qed
  qed
qed

lemma readouts_first_match:
  "decodeTelegram_readouts cvt 0 telegram objs =
     (case first_prefix_match telegram (map (c_str \<circ> code) objs) of
        None \<Rightarrow> Inr objs
      | Some i \<Rightarrow>
          (case getValue cvt telegram (int (length telegram))
                  (startChar (objs ! i)) (endChar (objs ! i)) of
             Inl e \<Rightarrow> Inl e
           | Inr newValue \<Rightarrow>
               Inr (if newValue \<noteq> value' (objs ! i)
                    then objs[i := (objs ! i)\<lparr>value' := newValue, sendData := True\<rparr>]
                    else objs)))"
  using readouts_from [of cvt 0 telegram objs]
  by (simp cong: option.case_cong sum.case_cong if_cong)

section \<open>A non-numeric span makes getValue return 0\<close>

lemma isNumber_from_False:
  "\<lbrakk>i \<le> j; j < len; 0 \<le> i;
    \<not> isdigit (res ! nat j); res ! nat j \<noteq> CHR ''.''; res ! nat j \<noteq> NUL\<rbrakk>
   \<Longrightarrow> \<not> isNumber_from i res len"
proof (induction i res len rule: isNumber_from.induct)
  case (1 i res len)
  from "1.prems" have lt: "i < len" by simp
  show ?case
  proof (cases "((of_char (res ! nat i) :: nat) < 48 \<or> (of_char (res ! nat i) :: nat) > 57)
            \<and> (res ! nat i \<noteq> CHR ''.'' \<and> res ! nat i \<noteq> NUL)")
    case True
    with lt show ?thesis by (subst isNumber_from.simps) simp
  next
    case False
    with "1.prems" have "i \<noteq> j" by (auto simp add: isdigit_def)
    with "1.prems" have "i + 1 \<le> j" by simp
    with "1.IH" [OF lt False] "1.prems" have "\<not> isNumber_from (i + 1) res len" by simp
    with lt False show ?thesis by (subst isNumber_from.simps) simp
  qed
qed

lemma isNumber_False:
  "\<lbrakk>j < nat len; \<not> isdigit (res ! j); res ! j \<noteq> CHR ''.''; res ! j \<noteq> NUL\<rbrakk>
   \<Longrightarrow> \<not> isNumber res len"
  unfolding isNumber_def
  by (rule isNumber_from_False [where j = "int j"]) simp_all

lemma strncpy_nth_copied:
  "j < length (c_str (take n src)) \<Longrightarrow> strncpy dst src n ! j = c_str (take n src) ! j"
  by (simp add: strncpy_def Let_def nth_append)

lemma c_str_length_take: "length (c_str (take n src)) \<le> n"
proof -
  have "length (c_str (take n src)) \<le> length (take n src)"
    unfolding c_str_def by (rule length_takeWhile_le)
  then show ?thesis by simp
qed

lemma getValue_non_numeric:
  assumes s: "findCharInArrayRev buffer startchar (maxlen - 2) = s"
      and e: "findCharInArrayRev buffer endchar (maxlen - 2) = e"
      and span: "s < e" "e - s - 1 \<le> 16"
      and bad: "c \<in> set (c_str (take (nat (e - s - 1)) (drop (nat (s + 1)) buffer)))"
               "\<not> isdigit c" "c \<noteq> CHR ''.''"
  shows "getValue cvt buffer maxlen startchar endchar = Inr 0"
proof -
  let ?l = "e - s - 1"
  let ?src = "drop (nat (s + 1)) buffer"
  let ?res = "strncpy (replicate 16 NUL) ?src (nat ?l)"
  from bad(1) obtain j where j: "j < length (c_str (take (nat ?l) ?src))"
      and cj: "c_str (take (nat ?l) ?src) ! j = c"
    by (auto simp add: in_set_conv_nth)
  from bad(1) have "c \<noteq> NUL"
    unfolding c_str_def by (auto dest: set_takeWhileD)
  have resj: "?res ! j = c"
    using j cj by (simp add: strncpy_nth_copied)
  from j c_str_length_take [of "nat ?l" ?src] have jl: "j < nat ?l" by simp
  have "\<not> isNumber ?res ?l"
    using jl resj bad(2,3) \<open>c \<noteq> NUL\<close> by (intro isNumber_False [where j = j]) simp_all
  moreover from span have "\<not> (?l < 0 \<or> 16 < ?l)" by simp
  ultimately show ?thesis
    unfolding getValue_def s e Let_def by simp
qed

section \<open>A numeric span is converted with the factor of its end delimiter\<close>




section \<open>Rounding to binary64\<close>

text \<open>
  The rounding is to a nearest number with a 53-bit mantissa: the exponent
  brackets the number, and the relative error is at most \<open>1 / 2 ^ 53\<close>.
\<close>

lemma floor_log2_floorlog:
  "floor_log2 x =
     (if 1 \<le> x then int (floorlog 2 (nat \<lfloor>x\<rfloor>)) - 1
      else - int (floorlog 2 (nat \<lceil>1 / x\<rceil> - 1)))"
proof -
  have "nat (\<lceil>1 / x\<rceil> - 1) = nat \<lceil>1 / x\<rceil> - 1"
    by arith
  then show ?thesis
    by (simp add: floor_log2_def bitlen_def)
qed


lemma ceiling_inverse_nat:
  assumes "0 < x" "x < (1::rat)"
  obtains m :: nat where "\<lceil>1 / x\<rceil> = int m" "2 \<le> m" "1 / x \<le> of_nat m" "of_nat (m - 1) < 1 / x"
proof -
  from assms have "1 < 1 / x" by simp
  then have c: "2 \<le> \<lceil>1 / x\<rceil>" by linarith
  define m where "m = nat \<lceil>1 / x\<rceil>"
  with c have m: "\<lceil>1 / x\<rceil> = int m" by simp
  with c have m2: "2 \<le> m" by simp
  have "1 / x \<le> of_int \<lceil>1 / x\<rceil>" by simp
  then have le: "1 / x \<le> of_nat m" unfolding m by simp
  have "of_int \<lceil>1 / x\<rceil> - 1 < 1 / x" by linarith
  moreover have "(of_int \<lceil>1 / x\<rceil> :: rat) = of_nat m" unfolding m by simp
  moreover from m2 have "(of_nat (m - 1) :: rat) = of_nat m - 1" by (simp add: of_nat_diff)
  ultimately have "of_nat (m - 1) < 1 / x" by linarith
  with m m2 le show thesis by (rule that)
qed

lemma floor_nat:
  assumes "1 \<le> (x::rat)"
  obtains n :: nat where "\<lfloor>x\<rfloor> = int n" "0 < n" "of_nat n \<le> x" "x < of_nat (n + 1)"
proof -
  from assms have c: "1 \<le> \<lfloor>x\<rfloor>" by simp
  define n where "n = nat \<lfloor>x\<rfloor>"
  with c have n: "\<lfloor>x\<rfloor> = int n" by simp
  with c have n0: "0 < n" by simp
  have "of_int \<lfloor>x\<rfloor> \<le> x" "x < of_int \<lfloor>x\<rfloor> + 1" by linarith+
  then have "of_nat n \<le> x" "x < of_nat (n + 1)" unfolding n by simp_all
  with n n0 show thesis by (rule that)
qed


lemma floor_log2_gt:
  assumes "0 < x"
  shows "x < 2 powi (floor_log2 x + 1)"
proof (cases "1 \<le> x")
  case True
  then obtain n :: nat
    where n: "\<lfloor>x\<rfloor> = int n" "0 < n" "of_nat n \<le> x" "x < of_nat (n + 1)"
    by (rule floor_nat)
  from floorlog_bounds [of n 2] n(2) have "n < (2::nat) ^ floorlog 2 n" by simp
  then have nk: "n + 1 \<le> (2::nat) ^ floorlog 2 n" by linarith
  note n(4)
  also have "(of_nat (n + 1) :: rat) \<le> of_nat (2 ^ floorlog 2 n)"
    using nk by (simp only: of_nat_le_iff)
  also have "\<dots> = 2 ^ floorlog 2 n" by simp
  finally have "x < 2 ^ floorlog 2 n" .
  moreover have "floor_log2 x + 1 = int (floorlog 2 n)" using True n(1) by (simp add: floor_log2_floorlog)
  ultimately show ?thesis by simp
next
  case False
  with assms have "x < 1" by simp
  with assms obtain m :: nat
    where m: "\<lceil>1 / x\<rceil> = int m" "2 \<le> m" "1 / x \<le> of_nat m" "of_nat (m - 1) < 1 / x"
    by (rule ceiling_inverse_nat)
  let ?k = "floorlog 2 (m - 1)"
  from m(2) have k: "0 < ?k" by (simp add: floorlog_def)
  from floorlog_bounds [of "m - 1" 2] m(2) have mk: "(2::nat) ^ (?k - 1) \<le> m - 1" by simp
  have "(2::rat) ^ (?k - 1) = of_nat (2 ^ (?k - 1))" by simp
  also have "\<dots> \<le> of_nat (m - 1)" using mk by (simp only: of_nat_le_iff)
  also note m(4)
  finally have "2 ^ (?k - 1) < 1 / x" .
  with assms have "x < 1 / 2 ^ (?k - 1)"
    by (simp add: field_simps)
  moreover have "floor_log2 x + 1 = - int (?k - 1)" using False k m(1) by (simp add: floor_log2_floorlog)
  ultimately show ?thesis by (simp add: power_int_minus_divide)
qed










section \<open>Truncating a rounded product\<close>















section \<open>What a line does to the Readings\<close>

lemma decodeTelegram_first_match:
  "decodeTelegram cvt telegram objs =
     (case first_prefix_match telegram (map (c_str \<circ> code) objs) of
        None \<Rightarrow> Inr (fst (decodeTelegram_crc telegram), objs)
      | Some i \<Rightarrow>
          (case getValue cvt telegram (int (length telegram))
                  (startChar (objs ! i)) (endChar (objs ! i)) of
             Inl e \<Rightarrow> Inl e
           | Inr newValue \<Rightarrow>
               Inr (fst (decodeTelegram_crc telegram),
                    if newValue \<noteq> value' (objs ! i)
                    then objs[i := (objs ! i)\<lparr>value' := newValue, sendData := True\<rparr>]
                    else objs)))"
  unfolding decodeTelegram_def readouts_first_match
  by (simp add: case_prod_unfold split: option.split sum.split)

text \<open>
  Claim C6. On a matched line whose extraction returns a value, the Reading of the
  matched slot gets the new value and its dirty flag set exactly when the new value
  differs from the stored one; when they are equal the registry is left as it was.
\<close>

theorem changed_value_marks_dirty:
  assumes "first_prefix_match telegram (map (c_str \<circ> code) objs) = Some i"
      and "getValue cvt telegram (int (length telegram))
             (startChar (objs ! i)) (endChar (objs ! i)) = Inr newValue"
  shows "decodeTelegram cvt telegram objs =
           Inr (fst (decodeTelegram_crc telegram),
                if newValue \<noteq> value' (objs ! i)
                then objs[i := (objs ! i)\<lparr>value' := newValue, sendData := True\<rparr>]
                else objs)"
  using assms by (simp add: decodeTelegram_first_match)


theorem changed_value_marks_dirty_witness:
  "first_prefix_match (''1-0:1.7.0(00.378*kW)'' @ [CR, LF]) (map (c_str \<circ> code) fresh_readouts) = Some 2
   \<and> getValue binary64_conv (''1-0:1.7.0(00.378*kW)'' @ [CR, LF])
        (int (length (''1-0:1.7.0(00.378*kW)'' @ [CR, LF])))
        (startChar (fresh_readouts ! 2)) (endChar (fresh_readouts ! 2)) = Inr 378
   \<and> value' (fresh_readouts ! 2) = 0
   \<and> decodeTelegram binary64_conv (''1-0:1.7.0(00.378*kW)'' @ [CR, LF]) fresh_readouts =
        Inr (False, fresh_readouts[2 := (fresh_readouts ! 2)\<lparr>value' := 378, sendData := True\<rparr>])"
proof -
  have m: "first_prefix_match (''1-0:1.7.0(00.378*kW)'' @ [CR, LF])
             (map (c_str \<circ> code) fresh_readouts) = Some 2"
    by code_simp
  have g: "getValue binary64_conv (''1-0:1.7.0(00.378*kW)'' @ [CR, LF])
        (int (length (''1-0:1.7.0(00.378*kW)'' @ [CR, LF])))
        (startChar (fresh_readouts ! 2)) (endChar (fresh_readouts ! 2)) = Inr 378"
    by code_simp
  have v: "value' (fresh_readouts ! 2) = 0"
    by code_simp
  have c: "fst (decodeTelegram_crc (''1-0:1.7.0(00.378*kW)'' @ [CR, LF])) = False"
    by code_simp
  from changed_value_marks_dirty [OF m g] m g v c show ?thesis
    by simp
qed

text \<open>
  Claim C4, as amended. A failed extraction is not told apart from a reading of 0:
  on a matched line whose span between the delimiters (at most 16 bytes, read up to
  a NUL byte) holds a character that is neither a digit nor a decimal point,
  \<open>getValue\<close> returns 0. The Reading is left untouched only if its stored
  value is 0 already; otherwise it is overwritten with 0 and marked dirty.
\<close>

theorem non_numeric_stores_zero:
  assumes match: "first_prefix_match telegram (map (c_str \<circ> code) objs) = Some i"
      and s: "findCharInArrayRev telegram (startChar (objs ! i)) (int (length telegram) - 2) = s"
      and e: "findCharInArrayRev telegram (endChar (objs ! i)) (int (length telegram) - 2) = e"
      and span: "0 \<le> s" "s < e" "e - s - 1 \<le> 16"
      and bad: "c \<in> set (c_str (take (nat (e - s - 1)) (drop (nat (s + 1)) telegram)))"
               "\<not> isdigit c" "c \<noteq> CHR ''.''"
  shows "decodeTelegram cvt telegram objs =
           Inr (fst (decodeTelegram_crc telegram),
                if value' (objs ! i) \<noteq> 0
                then objs[i := (objs ! i)\<lparr>value' := 0, sendData := True\<rparr>]
                else objs)"
proof -
  have "getValue cvt telegram (int (length telegram))
          (startChar (objs ! i)) (endChar (objs ! i)) = Inr 0"
    using s e span(2,3) bad by (rule getValue_non_numeric)
  with match have "decodeTelegram cvt telegram objs =
           Inr (fst (decodeTelegram_crc telegram),
                if 0 \<noteq> value' (objs ! i)
                then objs[i := (objs ! i)\<lparr>value' := 0, sendData := True\<rparr>]
                else objs)"
    by (simp add: decodeTelegram_first_match)
  then show ?thesis by (simp add: eq_commute [of 0])
qed

theorem non_numeric_stores_zero_witness:
  "first_prefix_match (''1-0:1.7.0(00.3x8*kW)'' @ [CR, LF]) (map (c_str \<circ> code) drained_readouts) = Some 2
   \<and> findCharInArrayRev (''1-0:1.7.0(00.3x8*kW)'' @ [CR, LF]) (startChar (drained_readouts ! 2))
        (int (length (''1-0:1.7.0(00.3x8*kW)'' @ [CR, LF])) - 2) = 9
   \<and> findCharInArrayRev (''1-0:1.7.0(00.3x8*kW)'' @ [CR, LF]) (endChar (drained_readouts ! 2))
        (int (length (''1-0:1.7.0(00.3x8*kW)'' @ [CR, LF])) - 2) = 16
   \<and> CHR ''x'' \<in> set (c_str (take (nat (16 - 9 - 1)) (drop (nat (9 + 1)) (''1-0:1.7.0(00.3x8*kW)'' @ [CR, LF]))))
   \<and> \<not> isdigit CHR ''x''
   \<and> value' (drained_readouts ! 2) = 378
   \<and> decodeTelegram binary64_conv (''1-0:1.7.0(00.3x8*kW)'' @ [CR, LF]) drained_readouts =
        Inr (False, drained_readouts[2 := (drained_readouts ! 2)\<lparr>value' := 0, sendData := True\<rparr>])"
proof -
  let ?line = "''1-0:1.7.0(00.3x8*kW)'' @ [CR, LF]"
  have m: "first_prefix_match ?line (map (c_str \<circ> code) drained_readouts) = Some 2"
    by code_simp
  have s: "findCharInArrayRev ?line (startChar (drained_readouts ! 2)) (int (length ?line) - 2) = 9"
    by code_simp
  have e: "findCharInArrayRev ?line (endChar (drained_readouts ! 2)) (int (length ?line) - 2) = 16"
    by code_simp
  have b: "CHR ''x'' \<in> set (c_str (take (nat (16 - 9 - 1)) (drop (nat (9 + 1)) ?line)))"
    by code_simp
  have d: "\<not> isdigit CHR ''x''"
    by code_simp
  have v: "value' (drained_readouts ! 2) = 378"
    by code_simp
  have c: "fst (decodeTelegram_crc ?line) = False"
    by code_simp
  from non_numeric_stores_zero [OF m s e _ _ _ b d, of binary64_conv] m s e b d v c show ?thesis
    by simp
qed

text \<open>
  Claim C4 as stated fails: with 378 stored and not dirty, the line
  \<open>1-0:1.7.0(00.3x8*kW)\<close> sets the value to 0 and the dirty flag; and a span with
  two decimal points passes the check and is converted.
\<close>

theorem non_numeric_no_update_counterexample:
  "name (drained_readouts ! 2) = ''actual_consumption''
   \<and> value' (drained_readouts ! 2) = 378
   \<and> sendData (drained_readouts ! 2) = False
   \<and> decodeTelegram binary64_conv (''1-0:1.7.0(00.3x8*kW)'' @ [CR, LF]) drained_readouts =
        Inr (False, drained_readouts[2 := (drained_readouts ! 2)\<lparr>value' := 0, sendData := True\<rparr>])
   \<and> decodeTelegram binary64_conv (''1-0:1.7.0(1.2.3*kW)'' @ [CR, LF]) drained_readouts =
        Inr (False, drained_readouts[2 := (drained_readouts ! 2)\<lparr>value' := 1200, sendData := True\<rparr>])"
  by code_simp

text \<open>
  Claim C7 does not hold of the registry the firmware builds. \<open>setupDataReadout\<close>
  assigns slots 0 to 13 and 18 of the table, and the decoder scans every slot: on
  the 19-slot table slots 14 to 17 all hold the empty code, so the codes are not
  pairwise distinct. The empty code is a prefix of every line: slot 14 is the
  first match of every line that matches none of the slots 0 to 13. The gas line
  \<open>0-1:24.2.3\<close> is matched by slot 14 and never reaches the gas field in slot 18,
  and the line \<open>0-0:96.7.21(00004)\<close>, whose code no field has, is decoded into the
  Reading of slot 14.
\<close>

theorem unassigned_slots_share_code:
  "length fresh_readouts = 19
   \<and> map code (drop 13 fresh_readouts) = [''0-0:96.14.0'', [], [], [], [], ''0-1:24.2.3'']
   \<and> \<not> distinct (map code fresh_readouts)
   \<and> first_prefix_match (''0-1:24.2.3(150531200000S)(00811.923*m3)'' @ [CR, LF])
        (map (c_str \<circ> code) fresh_readouts) = Some 14
   \<and> first_prefix_match (''0-0:96.7.21(00004)'' @ [CR, LF])
        (map (c_str \<circ> code) fresh_readouts) = Some 14
   \<and> decodeTelegram binary64_conv (''0-0:96.7.21(00004)'' @ [CR, LF]) fresh_readouts =
        Inr (False, fresh_readouts[14 := (fresh_readouts ! 14)\<lparr>value' := 4, sendData := True\<rparr>])"
  by code_simp

section \<open>The last two bytes of a line are never searched\<close>

lemma getValue_take:
  "getValue cvt (take (nat (maxlen - 2)) buffer) maxlen startchar endchar
     = getValue cvt buffer maxlen startchar endchar"
proof -
  let ?m = "nat (maxlen - 2)"
  let ?s = "findCharInArrayRev buffer startchar (maxlen - 2)"
  let ?e = "findCharInArrayRev buffer endchar (maxlen - 2)"
  let ?l = "?e - ?s - 1"
  have src: "take (nat ?l) (drop (nat (?s + 1)) (take ?m buffer))
           = take (nat ?l) (drop (nat (?s + 1)) buffer)" if "0 \<le> ?l"
  proof -
    have "- 1 \<le> ?s" by (rule findCharInArrayRev_ge)
    with that have "0 \<le> ?e" by simp
    with findCharInArrayRev_lt [of buffer endchar "maxlen - 2"] have "?e < maxlen - 2" by simp
    with \<open>- 1 \<le> ?s\<close> that have "nat ?l \<le> ?m - nat (?s + 1)" by simp
    then show ?thesis by (simp add: drop_take min_absorb1)
  qed
  show ?thesis
  proof (cases "?l < 0 \<or> 16 < ?l")
    case True
    then show ?thesis
      by (simp add: getValue_def findCharInArrayRev_take Let_def)
  next
    case False
    then have "0 \<le> ?l" by simp
    from src [OF this] False show ?thesis
      by (simp add: getValue_def findCharInArrayRev_take Let_def strncpy_def)
  qed
qed

lemma getValue_end_found:
  assumes "getValue cvt buffer maxlen startchar endchar \<noteq> Inl BufferOverrun"
  shows "0 \<le> findCharInArrayRev buffer endchar (maxlen - 2)"
proof -
  let ?s = "findCharInArrayRev buffer startchar (maxlen - 2)"
  let ?e = "findCharInArrayRev buffer endchar (maxlen - 2)"
  from assms have "\<not> (?e - ?s - 1 < 0)"
    by (auto simp add: getValue_def Let_def)
  moreover have "- 1 \<le> ?s" by (rule findCharInArrayRev_ge)
  ultimately show ?thesis by simp
qed

text \<open>
  Claim C9. Both delimiter searches of \<open>getValue\<close> look at the first
  \<open>maxlen - 2\<close> bytes only: the result is the same on the buffer cut to that
  length, a character that occurs in the last two bytes only is not found, a found
  delimiter has at least two bytes after it, and an extraction that does not overrun
  has found its end delimiter there.
\<close>

theorem getValue_ignores_last_two_bytes:
  assumes "maxlen \<le> int (length buffer)"
  shows "getValue cvt buffer maxlen startchar endchar
           = getValue cvt (take (nat (maxlen - 2)) buffer) maxlen startchar endchar
       \<and> (c \<notin> set (take (nat (maxlen - 2)) buffer)
            \<longrightarrow> findCharInArrayRev buffer c (maxlen - 2) = - 1)
       \<and> (findCharInArrayRev buffer c (maxlen - 2) = - 1
          \<or> (0 \<le> findCharInArrayRev buffer c (maxlen - 2)
              \<and> findCharInArrayRev buffer c (maxlen - 2) + 2 < maxlen
              \<and> buffer ! nat (findCharInArrayRev buffer c (maxlen - 2)) = c))
       \<and> (getValue cvt buffer maxlen startchar endchar \<noteq> Inl BufferOverrun
            \<longrightarrow> 0 \<le> findCharInArrayRev buffer endchar (maxlen - 2)
              \<and> findCharInArrayRev buffer endchar (maxlen - 2) + 2 < maxlen)"
proof -
  have a: "c \<notin> set (take (nat (maxlen - 2)) buffer)
            \<longrightarrow> findCharInArrayRev buffer c (maxlen - 2) = - 1"
    using assms by (auto intro: findCharInArrayRev_absent)
  have b: "findCharInArrayRev buffer c (maxlen - 2) = - 1
          \<or> (0 \<le> findCharInArrayRev buffer c (maxlen - 2)
              \<and> findCharInArrayRev buffer c (maxlen - 2) + 2 < maxlen
              \<and> buffer ! nat (findCharInArrayRev buffer c (maxlen - 2)) = c)"
    using findCharInArrayRev_cases [of buffer c "maxlen - 2"] by auto
  have d: "getValue cvt buffer maxlen startchar endchar \<noteq> Inl BufferOverrun
            \<longrightarrow> 0 \<le> findCharInArrayRev buffer endchar (maxlen - 2)
              \<and> findCharInArrayRev buffer endchar (maxlen - 2) + 2 < maxlen"
    using getValue_end_found [of cvt buffer maxlen startchar endchar]
      findCharInArrayRev_lt [of buffer endchar "maxlen - 2"] by auto
  from a b d show ?thesis
    by (simp only: getValue_take simp_thms)
qed

theorem getValue_ignores_last_two_bytes_witness:
  "18 \<le> int (length (''0-0:96.14.0(0001)'' @ [LF]))
   \<and> CHR '')'' \<notin> set (take (nat (18 - 2)) (''0-0:96.14.0(0001)'' @ [LF]))
   \<and> findCharInArrayRev (''0-0:96.14.0(0001)'' @ [LF]) CHR '')'' (18 - 2) = - 1
   \<and> 19 \<le> int (length (''0-0:96.14.0(0001)'' @ [CR, LF]))
   \<and> getValue binary64_conv (''0-0:96.14.0(0001)'' @ [CR, LF]) 19 CHR ''('' CHR '')'' = Inr 1
   \<and> getValue binary64_conv (take (nat (19 - 2)) (''0-0:96.14.0(0001)'' @ [CR, LF])) 19 CHR ''('' CHR '')'' = Inr 1
   \<and> findCharInArrayRev (''0-0:96.14.0(0001)'' @ [CR, LF]) CHR '')'' (19 - 2) = 16"
proof -
  let ?short = "''0-0:96.14.0(0001)'' @ [LF]"
  let ?line = "''0-0:96.14.0(0001)'' @ [CR, LF]"
  have l1: "18 \<le> int (length ?short)" by simp
  have l2: "19 \<le> int (length ?line)" by simp
  have n: "CHR '')'' \<notin> set (take (nat (18 - 2)) ?short)" by code_simp
  have g: "getValue binary64_conv ?line 19 CHR ''('' CHR '')'' = Inr 1" by code_simp
  have f: "findCharInArrayRev ?line CHR '')'' (19 - 2) = 16" by code_simp
  from getValue_ignores_last_two_bytes [OF l1, of _ _ _ "CHR '')''"] n
  have "findCharInArrayRev ?short CHR '')'' (18 - 2) = - 1" by blast
  moreover from getValue_ignores_last_two_bytes [OF l2, of binary64_conv "CHR ''(''" "CHR '')''"] g
  have "getValue binary64_conv (take (nat (19 - 2)) ?line) 19 CHR ''('' CHR '')'' = Inr 1"
    by simp
  ultimately show ?thesis using l1 l2 n g f by simp
qed

section \<open>The checksum is not carried from line to line\<close>

lemma findCharInArrayRev_absent_full:
  "c \<notin> set telegram \<Longrightarrow> findCharInArrayRev telegram c (int (length telegram)) = - 1"
  by (rule findCharInArrayRev_absent) simp_all

lemma crc16_bang: "crc16 0 [CHR ''!''] = 0x18C0"
  by code_simp

lemma c_str_messageCRC:
  "c_str (strncpy (replicate 5 NUL) src 4) = c_str (take 4 src)"
proof -
  let ?copied = "c_str (take 4 src)"
  have "strncpy (replicate 5 NUL) src 4 = ?copied @ (replicate (4 - length ?copied) NUL @ [NUL])"
    by (simp add: strncpy_def Let_def)
  moreover have "takeWhile (\<lambda>c. c \<noteq> NUL) (replicate (4 - length ?copied) NUL @ [NUL]) = []"
    by (cases "4 - length ?copied") simp_all
  moreover have "\<And>x. x \<in> set ?copied \<Longrightarrow> x \<noteq> NUL"
    unfolding c_str_def by (auto dest: set_takeWhileD)
  ultimately have "takeWhile (\<lambda>c. c \<noteq> NUL) (strncpy (replicate 5 NUL) src 4) = ?copied @ []"
    by (simp add: takeWhile_append2)
  then show ?thesis by (simp add: c_str_def [of "strncpy (replicate 5 NUL) src 4"])
qed

lemma decodeTelegram_crc_end:
  assumes "CHR ''/'' \<notin> set telegram"
      and e: "findCharInArrayRev telegram CHR ''!'' (int (length telegram)) = e" "0 \<le> e"
  shows "decodeTelegram_crc telegram =
           (word_of_int (strtol16 (c_str (take 4 (drop (nat (e + 1)) telegram)))) = (0x18C0 :: u32), 0)"
proof -
  from findCharInArrayRev_cases [of telegram "CHR ''!''" "int (length telegram)"] e
  have "nat e < length telegram" and "telegram ! nat e = CHR ''!''"
    by auto
  then have "take 1 (drop (nat e) telegram) = [CHR ''!'']"
    by (simp flip: Cons_nth_drop_Suc)
  with assms show ?thesis
    by (simp add: decodeTelegram_crc_def findCharInArrayRev_absent_full Let_def
        crc16_bang c_str_messageCRC)
qed

lemma decodeTelegram_crc_plain:
  assumes "CHR ''/'' \<notin> set telegram" and "CHR ''!'' \<notin> set telegram"
  shows "decodeTelegram_crc telegram = (False, crc16 0 telegram)"
  using assms by (simp add: decodeTelegram_crc_def findCharInArrayRev_absent_full Let_def)

text \<open>
  Claim C1 does not hold of the source: \<open>currentCRC\<close> is a local that starts at 0
  in every call. After the start line \<open>/A\<close> the checksum is \<open>0x57DC\<close>; the data
  line that follows is folded from 0 (giving \<open>0xC201\<close>), not from \<open>0x57DC\<close>
  (which would give \<open>0x243A\<close>).
\<close>

theorem checksum_restarts_on_every_call:
  "decodeTelegram_crc (''/A'' @ [CR, LF]) = (False, 0x57DC)
   \<and> decodeTelegram_crc (''1-0:1.7.0(00.378*kW)'' @ [CR, LF]) = (False, 0xC201)
   \<and> crc16 0 (''1-0:1.7.0(00.378*kW)'' @ [CR, LF]) = 0xC201
   \<and> crc16 0x57DC (''1-0:1.7.0(00.378*kW)'' @ [CR, LF]) = 0x243A"
  by code_simp

text \<open>
  Claim C2 does not hold of the source: the end line is compared with the checksum of
  the single byte \<open>!\<close>. The telegram \<open>/A\<close>, \<open>!8196\<close> carries the checksum of all
  its bytes from \<open>/\<close> to \<open>!\<close> and is reported invalid; any end line \<open>!18C0\<close> is
  reported valid.
\<close>

theorem valid_checksum_reported_invalid:
  "crc16 0 (''/A'' @ [CR, LF] @ ''!'') = 0x8196
   \<and> decodeTelegram_crc (''!8196'' @ [CR, LF]) = (False, 0)
   \<and> crc16 0 ''!'' = 0x18C0
   \<and> decodeTelegram_crc (''!18C0'' @ [CR, LF]) = (True, 0)"
  by code_simp

section \<open>The span between the delimiters is not checked\<close>

text \<open>
  Claim C8 does not hold of the source: the span is not checked before the copy. On
  the matched line \<open>0-0:96.14.0(0001)\<close> ended by a bare newline the closing
  parenthesis is outside the searched range, the span is \<open>-1 - 11 - 1\<close>, and the
  copy overruns; so it does on a matched line without any delimiter, and on one
  without the start delimiter whose end delimiter lies 20 bytes in.
\<close>

theorem negative_span_overruns_buffer:
  "findCharInArrayRev (''0-0:96.14.0(0001)'' @ [LF]) CHR ''('' (18 - 2) = 11
   \<and> findCharInArrayRev (''0-0:96.14.0(0001)'' @ [LF]) CHR '')'' (18 - 2) = - 1
   \<and> getValue binary64_conv (''0-0:96.14.0(0001)'' @ [LF]) 18 CHR ''('' CHR '')'' = Inl BufferOverrun
   \<and> decodeTelegram binary64_conv (''0-0:96.14.0(0001)'' @ [LF]) fresh_readouts = Inl BufferOverrun
   \<and> getValue binary64_conv (''1-0:1.7.0'' @ [CR, LF]) 11 CHR ''('' CHR ''*'' = Inl BufferOverrun
   \<and> findCharInArrayRev (''0-0:96.14.0:00000001)'' @ [CR, LF]) CHR ''('' (23 - 2) = - 1
   \<and> findCharInArrayRev (''0-0:96.14.0:00000001)'' @ [CR, LF]) CHR '')'' (23 - 2) = 20
   \<and> getValue binary64_conv (''0-0:96.14.0:00000001)'' @ [CR, LF]) 23 CHR ''('' CHR '')''
        = Inl BufferOverrun"
  by code_simp

end
